theory Spec2Isabelle
  imports Main
begin

section \<open>Python string primitives used by the interruption filter\<close>

text \<open>
  A transcript is a Python \<open>str\<close>. It is modelled as a \<open>string\<close> whose characters are the
  code points 0 to 255 (the Latin-1 range), one \<open>char\<close> per code point; every literal of the
  two source files is ASCII. \<open>str.lower\<close>, \<open>str.isspace\<close> and \<open>repr\<close> are written out for
  that range as CPython defines them.
\<close>

definition py_lower_char :: "char \<Rightarrow> char" where
  "py_lower_char c =
     (let n = (of_char c :: nat)
      in if (65 \<le> n \<and> n \<le> 90) \<or> (192 \<le> n \<and> n \<le> 222 \<and> n \<noteq> 215)
         then char_of (n + 32) else c)"

definition py_lower :: "string \<Rightarrow> string" where
  "py_lower s = map py_lower_char s"

text \<open>\<open>str.isspace\<close> on one character: TAB to CR, FS to US, SPACE, NEL and NBSP.\<close>

definition py_isspace :: "char \<Rightarrow> bool" where
  "py_isspace c =
     (let n = (of_char c :: nat)
      in (9 \<le> n \<and> n \<le> 13) \<or> (28 \<le> n \<and> n \<le> 32) \<or> n = 133 \<or> n = 160)"

text \<open>
  \<open>str.split()\<close> with no argument: one scan over the string, \<open>cur\<close> is the piece being
  read; a whitespace character closes a non-empty piece and is dropped.
\<close>

fun split_scan :: "string \<Rightarrow> string \<Rightarrow> string list" where
  "split_scan cur [] = (if cur = [] then [] else [cur])"
| "split_scan cur (c # cs) =
     (if py_isspace c
      then (if cur = [] then split_scan [] cs else cur # split_scan [] cs)
      else split_scan (cur @ [c]) cs)"

definition py_split :: "string \<Rightarrow> string list" where
  "py_split s = split_scan [] s"

text \<open>\<open>s.strip(chars)\<close>: drop the characters of \<open>chars\<close> from the left end, then from the right.\<close>

definition py_strip_chars :: "string \<Rightarrow> string \<Rightarrow> string" where
  "py_strip_chars chars s =
     rev (dropWhile (\<lambda>c. c \<in> set chars) (rev (dropWhile (\<lambda>c. c \<in> set chars) s)))"

text \<open>\<open>s.strip()\<close>: the same with whitespace.\<close>

definition py_strip :: "string \<Rightarrow> string" where
  "py_strip s = rev (dropWhile py_isspace (rev (dropWhile py_isspace s)))"

subsection \<open>\<open>repr\<close> of a string and of a list of strings\<close>

definition hex_digit :: "nat \<Rightarrow> char" where
  "hex_digit n = ''0123456789abcdef'' ! (n mod 16)"

definition hex_escape :: "char \<Rightarrow> string" where
  "hex_escape c =
     (let n = (of_char c :: nat)
      in [CHR 0x5C, CHR ''x'', hex_digit (n div 16), hex_digit (n mod 16)])"

definition py_isprintable :: "char \<Rightarrow> bool" where
  "py_isprintable c =
     (let n = (of_char c :: nat)
      in (32 \<le> n \<and> n < 127) \<or> (161 \<le> n \<and> n \<noteq> 173))"

definition repr_quote :: "string \<Rightarrow> char" where
  "repr_quote s = (if CHR 0x27 \<in> set s \<and> CHR 0x22 \<notin> set s then CHR 0x22 else CHR 0x27)"

definition repr_char :: "char \<Rightarrow> char \<Rightarrow> string" where
  "repr_char q c =
     (let n = (of_char c :: nat)
      in if c = q \<or> c = CHR 0x5C then [CHR 0x5C, c]
         else if c = CHR 0x09 then [CHR 0x5C, CHR ''t'']
         else if c = CHR 0x0A then [CHR 0x5C, CHR ''n'']
         else if c = CHR 0x0D then [CHR 0x5C, CHR ''r'']
         else if n < 32 \<or> n = 127 then hex_escape c
         else if n < 127 then [c]
         else if py_isprintable c then [c]
         else hex_escape c)"

definition py_repr :: "string \<Rightarrow> string" where
  "py_repr s = (let q = repr_quote s in [q] @ concat (map (repr_char q) s) @ [q])"

fun join_comma :: "string list \<Rightarrow> string" where
  "join_comma [] = []"
| "join_comma [x] = x"
| "join_comma (x # y # ys) = x @ '', '' @ join_comma (y # ys)"

definition py_repr_list :: "string list \<Rightarrow> string" where
  "py_repr_list xs = ''['' @ join_comma (map py_repr xs) @ '']''"

section \<open>Configuration: \<open>interruption_config.py\<close>\<close>

text \<open>
  The three word sets; \<open>test_interruption_logic.py\<close> holds a copy with the same elements.
\<close>

definition IGNORE_WORDS :: "string set" where
  "IGNORE_WORDS =
     {''yeah'', ''ok'', ''okay'', ''hmm'', ''uh-huh'', ''right'', ''yep'', ''mmhmm'',
      ''sure'', ''understood'', ''got it'', ''uh'', ''um'', ''ah'', ''yeah yeah'',
      ''absolutely'', ''definitely'', ''certainly'', ''sounds good'', ''i see'',
      ''i know'', ''i get it'', ''makes sense'', ''got ya'', ''no kidding'',
      ''you bet'', ''for sure'', ''all right'', ''alright''}"

definition INTERRUPT_WORDS :: "string set" where
  "INTERRUPT_WORDS =
     {''stop'', ''wait'', ''no'', ''hold'', ''cancel'', ''pause'',
      ''hold on'', ''wait wait'', ''one second'', ''one sec'', ''just a sec'',
      ''hang on'', ''slow down'', ''repeat that'', ''what'', ''sorry'', ''excuse me'',
      ''never mind'', ''never'', ''don't'', ''don't say that''}"

definition FILLER_WORDS :: "string set" where
  "FILLER_WORDS =
     {''but'', ''and'', ''or'', ''like'', ''you know'', ''i mean'', ''actually'',
      ''well'', ''so'', ''anyway'', ''basically'', ''essentially'', ''practically'',
      ''kind of'', ''sort of'', ''somehow'', ''somewhat'', ''quite'', ''really'',
      ''very'', ''pretty'', ''honestly'', ''seriously'', ''literally''}"

definition MICRO_DEBOUNCE_MS :: int where
  "MICRO_DEBOUNCE_MS = 150"

section \<open>The filter: \<open>test_filter_logic\<close>\<close>

text \<open>The module-level word sets that the function body reads.\<close>

record word_sets =
  ignore_words :: "string set"
  interrupt_words :: "string set"
  filler_words :: "string set"

definition module_word_sets :: word_sets where
  "module_word_sets =
     \<lparr>ignore_words = IGNORE_WORDS, interrupt_words = INTERRUPT_WORDS,
      filler_words = FILLER_WORDS\<rparr>"

definition STRIP_CHARS :: string where
  "STRIP_CHARS = ''.,!?;:()[]'' @ [CHR 0x22, CHR 0x27]"

definition STOP_WORDS :: "string set" where
  "STOP_WORDS = {''a'', ''an'', ''the'', ''to'', ''in'', ''on'', ''at''}"

text \<open>Step 1 (line 64): lower, split, keep the pieces with a non-empty \<open>strip()\<close>, strip punctuation.\<close>

definition raw_tokens :: "string \<Rightarrow> string list" where
  "raw_tokens transcript =
     map (py_strip_chars STRIP_CHARS)
         (filter (\<lambda>t. py_strip t \<noteq> []) (py_split (py_lower transcript)))"

text \<open>Line 67: drop empty tokens and the seven articles and prepositions.\<close>

definition tokens :: "string \<Rightarrow> string list" where
  "tokens transcript = filter (\<lambda>t. t \<noteq> [] \<and> t \<notin> STOP_WORDS) (raw_tokens transcript)"

text \<open>Lines 69 to 91, on the token list, with the word sets as a parameter.\<close>

definition filter_decision :: "word_sets \<Rightarrow> string list \<Rightarrow> bool \<Rightarrow> string \<times> string" where
  "filter_decision ws toks agent_speaking =
     (if toks = [] then (''SWALLOW'', ''No tokens (VAD blip)'')
      else if \<not> agent_speaking then (''RESPOND'', ''Agent is silent - treat as normal input'')
      else if list_ex (\<lambda>tok. tok \<in> interrupt_words ws) toks
      then (''INTERRUPT'', ''Contains interrupt words: ''
              @ py_repr_list (filter (\<lambda>t. t \<in> interrupt_words ws) toks))
      else if list_all (\<lambda>tok. tok \<in> ignore_words ws \<union> filler_words ws) toks
      then (''SWALLOW'', ''Only passive/filler words: '' @ py_repr_list toks)
      else (''INTERRUPT'', ''Mixed content detected: '' @ py_repr_list toks))"

definition filter_logic_with :: "word_sets \<Rightarrow> string \<Rightarrow> bool \<Rightarrow> string \<times> string" where
  "filter_logic_with ws transcript agent_speaking =
     filter_decision ws (tokens transcript) agent_speaking"

definition test_filter_logic :: "string \<Rightarrow> bool \<Rightarrow> string \<times> string" where
  "test_filter_logic transcript agent_speaking =
     filter_logic_with module_word_sets transcript agent_speaking"

section \<open>Variations of the inputs that the claims speak of\<close>

text \<open>
  The entries of a word set that consist of one word only: those without a space.
\<close>

definition single_words :: "string set \<Rightarrow> string set" where
  "single_words S = {p \<in> S. CHR '' '' \<notin> set p}"

definition drop_multi_word :: "word_sets \<Rightarrow> word_sets" where
  "drop_multi_word ws =
     \<lparr>ignore_words = single_words (ignore_words ws),
      interrupt_words = single_words (interrupt_words ws),
      filler_words = single_words (filler_words ws)\<rparr>"

text \<open>
  A session is a sequence of calls, as in the loop of \<open>run_test_suite\<close>, which calls
  \<open>test_filter_logic\<close> once per case with the case's transcript and flag. Each call is made
  at some time; the function has no parameter for it and reads no clock, so the time of a
  call appears in the model only as a field that nothing consults.
\<close>

record call =
  call_time_ms :: int
  call_transcript :: string
  call_speaking :: bool

definition run_calls :: "call list \<Rightarrow> (string \<times> string) list" where
  "run_calls cs = map (\<lambda>c. test_filter_logic (call_transcript c) (call_speaking c)) cs"

text \<open>
  The content-based rules in the words of the specification (empty-result rule, interrupt
  priority, all-acceptable rule, mixed-content rule), on the tokens of a transcript. It is
  what the filter is compared with when the agent is speaking.
\<close>

definition content_based_action :: "string \<Rightarrow> string" where
  "content_based_action transcript =
     (if tokens transcript = [] then ''SWALLOW''
      else if \<exists>tok\<in>set (tokens transcript). tok \<in> INTERRUPT_WORDS then ''INTERRUPT''
      else if \<forall>tok\<in>set (tokens transcript). tok \<in> IGNORE_WORDS \<or> tok \<in> FILLER_WORDS
      then ''SWALLOW''
      else ''INTERRUPT'')"

section \<open>Calls in state-passing form\<close>

text \<open>
  Besides its two arguments, a call of \<open>test_filter_logic\<close> runs in the state of the
  process: the wall clock, and the objects bound to the module globals \<open>IGNORE_WORDS\<close>,
  \<open>INTERRUPT_WORDS\<close> and \<open>FILLER_WORDS\<close>, which the body looks up when it runs. A Python
  set is a hash table whose iteration order depends on the hash seed of the process, so
  each global is held as the list of its elements in that order.
\<close>

record session =
  clock_ms :: int
  ignore_global :: "string list"
  interrupt_global :: "string list"
  filler_global :: "string list"

text \<open>
  The body uses the three objects through \<open>in\<close> (lines 78 and 81) and \<open>|\<close> (line 84)
  only, which see the elements and not their order.
\<close>

definition words_read :: "session \<Rightarrow> word_sets" where
  "words_read s =
     \<lparr>ignore_words = set (ignore_global s), interrupt_words = set (interrupt_global s),
      filler_words = set (filler_global s)\<rparr>"

text \<open>
  The call: the token lists and the union of line 84 are new local values, no global is
  assigned or updated in place and no clock is read, so the state comes back as it was.
\<close>

definition call_filter :: "session \<Rightarrow> string \<Rightarrow> bool \<Rightarrow> (string \<times> string) \<times> session" where
  "call_filter s transcript agent_speaking =
     (filter_logic_with (words_read s) transcript agent_speaking, s)"





definition session_at :: "int \<Rightarrow> (string list \<Rightarrow> string list) \<Rightarrow> session" where
  "session_at t0 order =
     \<lparr>clock_ms = t0,
      ignore_global = order
        [''yeah'', ''ok'', ''okay'', ''hmm'', ''uh-huh'', ''right'', ''yep'', ''mmhmm'',
         ''sure'', ''understood'', ''got it'', ''uh'', ''um'', ''ah'', ''yeah yeah'',
         ''absolutely'', ''definitely'', ''certainly'', ''sounds good'', ''i see'',
         ''i know'', ''i get it'', ''makes sense'', ''got ya'', ''no kidding'',
         ''you bet'', ''for sure'', ''all right'', ''alright''],
      interrupt_global = order
        [''stop'', ''wait'', ''no'', ''hold'', ''cancel'', ''pause'',
         ''hold on'', ''wait wait'', ''one second'', ''one sec'', ''just a sec'',
         ''hang on'', ''slow down'', ''repeat that'', ''what'', ''sorry'', ''excuse me'',
         ''never mind'', ''never'', ''don't'', ''don't say that''],
      filler_global = order
        [''but'', ''and'', ''or'', ''like'', ''you know'', ''i mean'', ''actually'',
         ''well'', ''so'', ''anyway'', ''basically'', ''essentially'', ''practically'',
         ''kind of'', ''sort of'', ''somehow'', ''somewhat'', ''quite'', ''really'',
         ''very'', ''pretty'', ''honestly'', ''seriously'', ''literally'']\<rparr>"

section \<open>The decision rules on a token list\<close>


lemma filter_decision_empty:
  "filter_decision ws [] agent_speaking = (''SWALLOW'', ''No tokens (VAD blip)'')"
  by (simp add: filter_decision_def)

lemma filter_decision_silent:
  "toks \<noteq> [] \<Longrightarrow>
   filter_decision ws toks False = (''RESPOND'', ''Agent is silent - treat as normal input'')"
  by (simp add: filter_decision_def)

lemma filter_decision_interrupt:
  assumes "\<exists>tok\<in>set toks. tok \<in> interrupt_words ws"
  shows "fst (filter_decision ws toks True) = ''INTERRUPT''"
proof -
  from assms have "toks \<noteq> []" by auto
  moreover from assms have "list_ex (\<lambda>tok. tok \<in> interrupt_words ws) toks"
    by (simp add: list_ex_iff)
  ultimately show ?thesis by (simp add: filter_decision_def)
qed

lemma filter_decision_acceptable:
  assumes "\<not> (\<exists>tok\<in>set toks. tok \<in> interrupt_words ws)"
    and "\<forall>tok\<in>set toks. tok \<in> ignore_words ws \<or> tok \<in> filler_words ws"
  shows "fst (filter_decision ws toks True) = ''SWALLOW''"
proof -
  from assms(1) have "\<not> list_ex (\<lambda>tok. tok \<in> interrupt_words ws) toks"
    by (simp add: list_ex_iff)
  moreover from assms(2) have "list_all (\<lambda>tok. tok \<in> ignore_words ws \<union> filler_words ws) toks"
    by (simp add: list_all_iff)
  ultimately show ?thesis by (simp add: filter_decision_def)
qed

lemma filter_decision_mixed:
  assumes "\<not> (\<exists>tok\<in>set toks. tok \<in> interrupt_words ws)"
    and "\<exists>tok\<in>set toks. tok \<notin> ignore_words ws \<and> tok \<notin> filler_words ws"
  shows "fst (filter_decision ws toks True) = ''INTERRUPT''"
proof -
  from assms(2) have "toks \<noteq> []" by auto
  moreover from assms(1) have "\<not> list_ex (\<lambda>tok. tok \<in> interrupt_words ws) toks"
    by (simp add: list_ex_iff)
  moreover from assms(2)
  have "\<not> list_all (\<lambda>tok. tok \<in> ignore_words ws \<union> filler_words ws) toks"
    by (auto simp add: list_all_iff)
  ultimately show ?thesis by (simp add: filter_decision_def)
qed

section \<open>Properties of \<open>test_filter_logic\<close>\<close>

lemma test_filter_logic_unfold:
  "test_filter_logic transcript agent_speaking =
     filter_decision module_word_sets (tokens transcript) agent_speaking"
  by (simp add: test_filter_logic_def filter_logic_with_def)

lemma module_interrupt [simp]: "interrupt_words module_word_sets = INTERRUPT_WORDS"
  by (simp add: module_word_sets_def)

lemma module_ignore [simp]: "ignore_words module_word_sets = IGNORE_WORDS"
  by (simp add: module_word_sets_def)

lemma module_filler [simp]: "filler_words module_word_sets = FILLER_WORDS"
  by (simp add: module_word_sets_def)

text \<open>
  Claim C1 (interrupt priority). While the agent is speaking, a transcript one of whose
  tokens (after stripping and stop-word removal) is in \<open>INTERRUPT_WORDS\<close> gets the action
  INTERRUPT, whatever the other tokens are.
\<close>

theorem interrupt_priority:
  assumes "\<exists>tok\<in>set (tokens transcript). tok \<in> INTERRUPT_WORDS"
  shows "fst (test_filter_logic transcript True) = ''INTERRUPT''"
  using assms by (simp add: test_filter_logic_unfold filter_decision_interrupt)

theorem interrupt_priority_witness:
  "(\<exists>tok\<in>set (tokens ''Yeah but wait a second''). tok \<in> INTERRUPT_WORDS)
   \<and> (\<exists>tok\<in>set (tokens ''Yeah but wait a second''). tok \<in> IGNORE_WORDS)
   \<and> (\<exists>tok\<in>set (tokens ''Yeah but wait a second''). tok \<in> FILLER_WORDS)
   \<and> fst (test_filter_logic ''Yeah but wait a second'' True) = ''INTERRUPT''"
proof -
  have h: "\<exists>tok\<in>set (tokens ''Yeah but wait a second''). tok \<in> INTERRUPT_WORDS"
    by code_simp
  have i: "\<exists>tok\<in>set (tokens ''Yeah but wait a second''). tok \<in> IGNORE_WORDS"
    by code_simp
  have f: "\<exists>tok\<in>set (tokens ''Yeah but wait a second''). tok \<in> FILLER_WORDS"
    by code_simp
  from h i f interrupt_priority [OF h] show ?thesis by blast
qed

text \<open>
  Claim C2 (all-acceptable rule). While the agent is speaking, a transcript none of whose
  tokens is in \<open>INTERRUPT_WORDS\<close> and all of whose tokens are in \<open>IGNORE_WORDS\<close> or
  \<open>FILLER_WORDS\<close> gets the action SWALLOW.
\<close>

theorem all_acceptable_swallow:
  assumes "\<not> (\<exists>tok\<in>set (tokens transcript). tok \<in> INTERRUPT_WORDS)"
    and "\<forall>tok\<in>set (tokens transcript). tok \<in> IGNORE_WORDS \<or> tok \<in> FILLER_WORDS"
  shows "fst (test_filter_logic transcript True) = ''SWALLOW''"
  using assms by (simp add: test_filter_logic_unfold filter_decision_acceptable)

theorem all_acceptable_swallow_witness:
  "\<not> (\<exists>tok\<in>set (tokens ''Right right, okay''). tok \<in> INTERRUPT_WORDS)
   \<and> tokens ''Right right, okay'' = [''right'', ''right'', ''okay'']
   \<and> ''right'' \<in> IGNORE_WORDS \<and> ''okay'' \<in> IGNORE_WORDS
   \<and> fst (test_filter_logic ''Right right, okay'' True) = ''SWALLOW''"
proof -
  have a: "\<not> (\<exists>tok\<in>set (tokens ''Right right, okay''). tok \<in> INTERRUPT_WORDS)"
    by code_simp
  have b: "\<forall>tok\<in>set (tokens ''Right right, okay''). tok \<in> IGNORE_WORDS \<or> tok \<in> FILLER_WORDS"
    by code_simp
  have c: "tokens ''Right right, okay'' = [''right'', ''right'', ''okay'']"
    by code_simp
  have d: "''right'' \<in> IGNORE_WORDS" "''okay'' \<in> IGNORE_WORDS"
    by (simp_all add: IGNORE_WORDS_def)
  from a c d all_acceptable_swallow [OF a b] show ?thesis by blast
qed

text \<open>
  Claim C3 (mixed-content rule). While the agent is speaking, a transcript none of whose
  tokens is in \<open>INTERRUPT_WORDS\<close> and one of whose tokens is in none of the three word sets
  gets the action INTERRUPT.
\<close>

theorem mixed_content_interrupt:
  assumes "\<not> (\<exists>tok\<in>set (tokens transcript). tok \<in> INTERRUPT_WORDS)"
    and "\<exists>tok\<in>set (tokens transcript).
           tok \<notin> IGNORE_WORDS \<and> tok \<notin> FILLER_WORDS \<and> tok \<notin> INTERRUPT_WORDS"
  shows "fst (test_filter_logic transcript True) = ''INTERRUPT''"
proof -
  from assms(2) have "\<exists>tok\<in>set (tokens transcript).
      tok \<notin> ignore_words module_word_sets \<and> tok \<notin> filler_words module_word_sets"
    by auto
  with assms(1) show ?thesis
    by (simp add: test_filter_logic_unfold filter_decision_mixed)
qed

theorem mixed_content_interrupt_witness:
  "\<not> (\<exists>tok\<in>set (tokens ''yeah tell me more''). tok \<in> INTERRUPT_WORDS)
   \<and> (\<exists>tok\<in>set (tokens ''yeah tell me more'').
          tok \<notin> IGNORE_WORDS \<and> tok \<notin> FILLER_WORDS \<and> tok \<notin> INTERRUPT_WORDS)
   \<and> fst (test_filter_logic ''yeah tell me more'' True) = ''INTERRUPT''"
proof -
  have a: "\<not> (\<exists>tok\<in>set (tokens ''yeah tell me more''). tok \<in> INTERRUPT_WORDS)"
    by code_simp
  have b: "\<exists>tok\<in>set (tokens ''yeah tell me more'').
          tok \<notin> IGNORE_WORDS \<and> tok \<notin> FILLER_WORDS \<and> tok \<notin> INTERRUPT_WORDS"
    by code_simp
  from a b mixed_content_interrupt [OF a b] show ?thesis by blast
qed

text \<open>
  Claim C5 (empty-result rule). A transcript with no token left after stripping and
  stop-word removal gets the action SWALLOW, whether the agent is speaking or not.
\<close>

theorem no_tokens_swallow:
  assumes "tokens transcript = []"
  shows "fst (test_filter_logic transcript agent_speaking) = ''SWALLOW''"
  using assms by (simp add: test_filter_logic_unfold filter_decision_empty)

theorem no_tokens_swallow_witness:
  "tokens '''' = [] \<and> tokens ''   '' = [] \<and> tokens ''... ... ...'' = [] \<and> tokens ''the a.'' = []
   \<and> fst (test_filter_logic '''' True) = ''SWALLOW''
   \<and> fst (test_filter_logic '''' False) = ''SWALLOW''
   \<and> fst (test_filter_logic ''   '' True) = ''SWALLOW''
   \<and> fst (test_filter_logic ''   '' False) = ''SWALLOW''
   \<and> fst (test_filter_logic ''... ... ...'' True) = ''SWALLOW''
   \<and> fst (test_filter_logic ''... ... ...'' False) = ''SWALLOW''
   \<and> fst (test_filter_logic ''the a.'' False) = ''SWALLOW''"
proof -
  have a: "tokens '''' = []" by code_simp
  have b: "tokens ''   '' = []" by code_simp
  have c: "tokens ''... ... ...'' = []" by code_simp
  have d: "tokens ''the a.'' = []" by code_simp
  from a b c d
    no_tokens_swallow [OF a, of True] no_tokens_swallow [OF a, of False]
    no_tokens_swallow [OF b, of True] no_tokens_swallow [OF b, of False]
    no_tokens_swallow [OF c, of True] no_tokens_swallow [OF c, of False]
    no_tokens_swallow [OF d, of False]
  show ?thesis by blast
qed

text \<open>
  Claim C6 (silent-agent rule). When the agent is not speaking, a transcript with at least
  one token gets the action RESPOND, whatever the tokens are.
\<close>

theorem silent_agent_respond:
  assumes "tokens transcript \<noteq> []"
  shows "fst (test_filter_logic transcript False) = ''RESPOND''"
  using assms by (simp add: test_filter_logic_unfold filter_decision_silent)

theorem silent_agent_respond_witness:
  "tokens ''Cancel that'' \<noteq> [] \<and> fst (test_filter_logic ''Cancel that'' False) = ''RESPOND''"
proof -
  have a: "tokens ''Cancel that'' \<noteq> []" by code_simp
  from a silent_agent_respond [OF a] show ?thesis by blast
qed

section \<open>Tokenisation\<close>

text \<open>
  Lowering a character neither makes nor removes whitespace, so \<open>split\<close> commutes with
  \<open>lower\<close>: the tokens of a transcript are computed piece by piece from its
  whitespace-separated words.
\<close>

lemma py_isspace_lower_char: "py_isspace (py_lower_char c) = py_isspace c"
proof -
  have "(of_char c :: nat) < 256" by simp
  then show ?thesis
    by (auto simp add: py_isspace_def py_lower_char_def Let_def)
qed

lemma py_lower_Nil_iff: "py_lower s = [] \<longleftrightarrow> s = []"
  by (simp add: py_lower_def)

lemma py_lower_snoc: "py_lower (cur @ [c]) = py_lower cur @ [py_lower_char c]"
  by (simp add: py_lower_def)

lemma py_lower_Cons: "py_lower (c # cs) = py_lower_char c # py_lower cs"
  by (simp add: py_lower_def)

lemma split_scan_lower:
  "split_scan (py_lower cur) (py_lower s) = map py_lower (split_scan cur s)"
proof (induction s arbitrary: cur)
  case Nil
  show ?case by (simp add: py_lower_Nil_iff) (simp add: py_lower_def)
next
  case (Cons c cs)
  have nil: "split_scan [] (py_lower cs) = map py_lower (split_scan [] cs)"
    using Cons.IH [of "[]"] by (simp add: py_lower_def)
  show ?case
  proof (cases "py_isspace c")
    case True
    then show ?thesis
      by (simp add: py_lower_Cons py_isspace_lower_char py_lower_Nil_iff nil)
  next
    case False
    then show ?thesis
      using Cons.IH [of "cur @ [c]"]
      by (simp add: py_lower_Cons py_isspace_lower_char py_lower_snoc)
  qed
qed

lemma py_split_lower: "py_split (py_lower s) = map py_lower (py_split s)"
  using split_scan_lower [of "[]" s] by (simp add: py_split_def py_lower_def)

lemma stop_word_lower: "w \<in> STOP_WORDS \<Longrightarrow> py_lower w = w"
  by (auto simp add: STOP_WORDS_def py_lower_def py_lower_char_def)

lemma stop_word_strip: "w \<in> STOP_WORDS \<Longrightarrow> py_strip_chars STRIP_CHARS w = w"
  by (auto simp add: STOP_WORDS_def py_strip_chars_def STRIP_CHARS_def)

lemma tokens_via_split:
  "tokens t =
     filter (\<lambda>t. t \<noteq> [] \<and> t \<notin> STOP_WORDS)
       (map (py_strip_chars STRIP_CHARS)
          (filter (\<lambda>t. py_strip t \<noteq> []) (map py_lower (py_split t))))"
  by (simp add: tokens_def raw_tokens_def py_split_lower)

lemma tokens_stop_word_inserted:
  assumes "w \<in> STOP_WORDS" and "py_split t = xs @ ys" and "py_split t' = xs @ [w] @ ys"
  shows "tokens t' = tokens t"
  using assms by (simp add: tokens_via_split stop_word_lower stop_word_strip)

text \<open>
  What \<open>split\<close> does to a transcript into which a word has been put between two
  whitespace characters.
\<close>

lemma split_scan_space:
  "py_isspace sp \<Longrightarrow> split_scan cur (a @ sp # b) = split_scan cur a @ split_scan [] b"
  by (induction a arbitrary: cur) simp_all

lemma split_scan_word:
  "\<forall>c\<in>set w. \<not> py_isspace c \<Longrightarrow> split_scan cur (w @ s) = split_scan (cur @ w) s"
  by (induction w arbitrary: cur) simp_all

lemma py_split_insert_word:
  assumes "py_isspace sp1" "py_isspace sp2" "w \<noteq> []" "\<forall>c\<in>set w. \<not> py_isspace c"
  shows "py_split (a @ sp1 # w @ sp2 # b) = py_split a @ [w] @ py_split b"
proof -
  have "split_scan [] (w @ sp2 # b) = w # split_scan [] b"
    using assms split_scan_word [of w "[]" "sp2 # b"] by simp
  then show ?thesis using assms(1) by (simp add: py_split_def split_scan_space)
qed

lemma py_split_space: "py_isspace sp \<Longrightarrow> py_split (a @ sp # b) = py_split a @ py_split b"
  by (simp add: py_split_def split_scan_space)

text \<open>
  No piece of \<open>split\<close> holds a whitespace character, and \<open>strip\<close> only removes
  characters, so no token holds one.
\<close>

lemma split_scan_no_space:
  "\<forall>c\<in>set cur. \<not> py_isspace c \<Longrightarrow> p \<in> set (split_scan cur s) \<Longrightarrow> c \<in> set p
   \<Longrightarrow> \<not> py_isspace c"
proof (induction s arbitrary: cur)
  case Nil
  then show ?case by (auto split: if_splits)
next
  case (Cons x xs)
  show ?case
  proof (cases "py_isspace x")
    case True
    with Cons.prems have "p = cur \<or> p \<in> set (split_scan [] xs)"
      by (auto split: if_splits)
    then show ?thesis
    proof
      assume "p = cur" with Cons.prems show ?thesis by simp
    next
      assume "p \<in> set (split_scan [] xs)"
      with Cons.IH [of "[]"] Cons.prems(3) show ?thesis by simp
    qed
  next
    case False
    with Cons.prems have "p \<in> set (split_scan (cur @ [x]) xs)" by simp
    moreover from False Cons.prems(1) have "\<forall>c\<in>set (cur @ [x]). \<not> py_isspace c" by simp
    ultimately show ?thesis using Cons.IH [of "cur @ [x]"] Cons.prems(3) by blast
  qed
qed

lemma set_py_strip_chars: "set (py_strip_chars chars s) \<subseteq> set s"
proof
  fix c assume "c \<in> set (py_strip_chars chars s)"
  then have "c \<in> set (dropWhile (\<lambda>c. c \<in> set chars) (rev (dropWhile (\<lambda>c. c \<in> set chars) s)))"
    by (simp add: py_strip_chars_def)
  then have "c \<in> set (rev (dropWhile (\<lambda>c. c \<in> set chars) s))"
    by (rule set_dropWhileD)
  then have "c \<in> set (dropWhile (\<lambda>c. c \<in> set chars) s)" by simp
  then show "c \<in> set s" by (rule set_dropWhileD)
qed

lemma token_no_whitespace:
  assumes "tok \<in> set (tokens t)" and "c \<in> set tok"
  shows "\<not> py_isspace c"
proof -
  from assms(1) obtain p where p: "p \<in> set (py_split (py_lower t))"
    and tok: "tok = py_strip_chars STRIP_CHARS p"
    by (auto simp add: tokens_def raw_tokens_def)
  from assms(2) tok have "c \<in> set p" using set_py_strip_chars by blast
  with p show ?thesis
    using split_scan_no_space [of "[]" p "py_lower t" c] by (simp add: py_split_def)
qed

lemma space_isspace: "py_isspace (CHR '' '')"
  by (simp add: py_isspace_def)

lemma token_no_space: "tok \<in> set (tokens t) \<Longrightarrow> CHR '' '' \<notin> set tok"
  using token_no_whitespace space_isspace by blast

lemma single_words_iff: "CHR '' '' \<notin> set tok \<Longrightarrow> tok \<in> single_words S \<longleftrightarrow> tok \<in> S"
  by (simp add: single_words_def)

lemma filter_decision_cong:
  assumes "\<forall>tok\<in>set toks. (tok \<in> interrupt_words ws \<longleftrightarrow> tok \<in> interrupt_words ws')"
    and "\<forall>tok\<in>set toks. (tok \<in> ignore_words ws \<longleftrightarrow> tok \<in> ignore_words ws')"
    and "\<forall>tok\<in>set toks. (tok \<in> filler_words ws \<longleftrightarrow> tok \<in> filler_words ws')"
  shows "filter_decision ws toks sp = filter_decision ws' toks sp"
proof -
  have ex: "list_ex (\<lambda>tok. tok \<in> interrupt_words ws) toks
            = list_ex (\<lambda>tok. tok \<in> interrupt_words ws') toks"
    using assms(1) by (simp add: list_ex_iff)
  have al: "list_all (\<lambda>tok. tok \<in> ignore_words ws \<union> filler_words ws) toks
            = list_all (\<lambda>tok. tok \<in> ignore_words ws' \<union> filler_words ws') toks"
    using assms(2,3) by (simp add: list_all_iff)
  have fl: "filter (\<lambda>t. t \<in> interrupt_words ws) toks = filter (\<lambda>t. t \<in> interrupt_words ws') toks"
    using assms(1) by (simp cong: filter_cong)
  show ?thesis by (simp only: filter_decision_def ex al fl)
qed

text \<open>
  A transcript of whitespace and strip characters only (the empty one, a whitespace-only
  one, a punctuation-only one) has no token.
\<close>

lemma split_scan_subset:
  "p \<in> set (split_scan cur s) \<Longrightarrow> set p \<subseteq> set cur \<union> set s"
proof (induction s arbitrary: cur)
  case Nil
  then show ?case by (auto split: if_splits)
next
  case (Cons x xs)
  show ?case
  proof (cases "py_isspace x")
    case True
    with Cons.prems have "p = cur \<or> p \<in> set (split_scan [] xs)"
      by (auto split: if_splits)
    then show ?thesis using Cons.IH [of "[]"] by auto
  next
    case False
    with Cons.prems have "p \<in> set (split_scan (cur @ [x]) xs)" by simp
    then show ?thesis using Cons.IH [of "cur @ [x]"] by auto
  qed
qed

lemma dropWhile_all: "set p \<subseteq> set chars \<Longrightarrow> dropWhile (\<lambda>c. c \<in> set chars) p = []"
  by (induction p) simp_all

lemma py_strip_chars_all: "set p \<subseteq> set chars \<Longrightarrow> py_strip_chars chars p = []"
  by (simp add: py_strip_chars_def dropWhile_all)

lemma py_lower_char_punct: "c \<in> set STRIP_CHARS \<Longrightarrow> py_lower_char c = c"
  by (auto simp add: STRIP_CHARS_def py_lower_char_def)

lemma blank_transcript_no_tokens:
  assumes "\<forall>c\<in>set transcript. py_isspace c \<or> c \<in> set STRIP_CHARS"
  shows "tokens transcript = []"
proof -
  have strip: "py_strip_chars STRIP_CHARS p = []"
    if p: "p \<in> set (py_split (py_lower transcript))" for p
  proof -
    have "set p \<subseteq> set STRIP_CHARS"
    proof
      fix c
      assume c: "c \<in> set p"
      with p have ns: "\<not> py_isspace c"
        using split_scan_no_space [of "[]" p "py_lower transcript" c]
        by (simp add: py_split_def)
      from p c have "c \<in> set (py_lower transcript)"
        using split_scan_subset [of p "[]" "py_lower transcript"]
        by (auto simp add: py_split_def)
      then obtain d where d: "d \<in> set transcript" and cd: "c = py_lower_char d"
        by (auto simp add: py_lower_def)
      from ns cd have "\<not> py_isspace d" by (simp add: py_isspace_lower_char)
      with d assms have "d \<in> set STRIP_CHARS" by blast
      with cd show "c \<in> set STRIP_CHARS" by (simp add: py_lower_char_punct)
    qed
    then show ?thesis by (rule py_strip_chars_all)
  qed
  then have "\<forall>x\<in>set (raw_tokens transcript). x = []"
    by (auto simp add: raw_tokens_def)
  then show ?thesis by (simp add: tokens_def filter_empty_conv)
qed

section \<open>Stop words and multi-word entries\<close>

text \<open>
  Claim C7 (stop-word invariance). If the whitespace-separated words of \<open>t'\<close> are those
  of \<open>t\<close> with one stop word (a, an, the, to, in, on, at) put in at any place, at the
  start and the end included, then \<open>t'\<close> and \<open>t\<close> get the same action, for both values
  of the flag. Read from right to left it is the removal of a stop word.
\<close>

theorem stop_word_invariance:
  assumes "w \<in> STOP_WORDS" and "py_split t = xs @ ys" and "py_split t' = xs @ [w] @ ys"
  shows "fst (test_filter_logic t' agent_speaking) = fst (test_filter_logic t agent_speaking)"
  using tokens_stop_word_inserted [OF assms]
  by (simp add: test_filter_logic_def filter_logic_with_def)

theorem stop_word_invariance_witness:
  "''the'' \<in> STOP_WORDS
   \<and> py_split ''Yeah okay'' = [''Yeah''] @ [''okay'']
   \<and> py_split ''Yeah the okay'' = [''Yeah''] @ [''the''] @ [''okay'']
   \<and> fst (test_filter_logic ''Yeah the okay'' True) = fst (test_filter_logic ''Yeah okay'' True)
   \<and> fst (test_filter_logic ''Yeah the okay'' False) = fst (test_filter_logic ''Yeah okay'' False)
   \<and> fst (test_filter_logic ''Yeah okay'' True) = ''SWALLOW''"
proof -
  have a: "''the'' \<in> STOP_WORDS" by (simp add: STOP_WORDS_def)
  have b: "py_split ''Yeah okay'' = [''Yeah''] @ [''okay'']" by code_simp
  have c: "py_split ''Yeah the okay'' = [''Yeah''] @ [''the''] @ [''okay'']" by code_simp
  have d: "fst (test_filter_logic ''Yeah okay'' True) = ''SWALLOW''" by code_simp
  from a b c d stop_word_invariance [OF a b c, of True] stop_word_invariance [OF a b c, of False]
  show ?thesis by blast
qed

text \<open>
  Claim C8 (multi-word entries are inert). No token holds a space, so an entry of a word
  set with a space in it never equals a token: for every transcript and flag the filter
  with the three configured sets returns the same pair, hence the same action, as the
  filter with the entries that hold a space removed from the three sets.
\<close>

theorem multi_word_entries_inert:
  "(\<forall>tok\<in>set (tokens transcript). CHR '' '' \<notin> set tok)
   \<and> test_filter_logic transcript agent_speaking
       = filter_logic_with (drop_multi_word module_word_sets) transcript agent_speaking"
proof
  show ns: "\<forall>tok\<in>set (tokens transcript). CHR '' '' \<notin> set tok"
    using token_no_space by blast
  have "filter_decision module_word_sets (tokens transcript) agent_speaking
        = filter_decision (drop_multi_word module_word_sets) (tokens transcript) agent_speaking"
    by (rule filter_decision_cong) (simp_all add: drop_multi_word_def single_words_iff ns)
  then show "test_filter_logic transcript agent_speaking
       = filter_logic_with (drop_multi_word module_word_sets) transcript agent_speaking"
    by (simp add: test_filter_logic_def filter_logic_with_def)
qed

theorem multi_word_entries_inert_witness:
  "''got it'' \<in> IGNORE_WORDS
   \<and> ''got it'' \<notin> ignore_words (drop_multi_word module_word_sets)
   \<and> ''hold'' \<in> interrupt_words (drop_multi_word module_word_sets)
   \<and> tokens ''Got it.'' = [''got'', ''it'']
   \<and> CHR '' '' \<notin> set ''got'' \<and> CHR '' '' \<notin> set ''it''
   \<and> test_filter_logic ''Got it.'' True
       = filter_logic_with (drop_multi_word module_word_sets) ''Got it.'' True
   \<and> fst (test_filter_logic ''Got it.'' True) = ''INTERRUPT''"
proof -
  have a: "''got it'' \<in> IGNORE_WORDS" by (simp add: IGNORE_WORDS_def)
  have b: "''got it'' \<notin> ignore_words (drop_multi_word module_word_sets)"
    by (simp add: drop_multi_word_def single_words_def)
  have c: "''hold'' \<in> interrupt_words (drop_multi_word module_word_sets)"
    by (simp add: drop_multi_word_def single_words_def INTERRUPT_WORDS_def)
  have d: "tokens ''Got it.'' = [''got'', ''it'']" by code_simp
  have e: "fst (test_filter_logic ''Got it.'' True) = ''INTERRUPT''" by code_simp
  from multi_word_entries_inert [of "''Got it.''" True]
  have f: "CHR '' '' \<notin> set ''got'' \<and> CHR '' '' \<notin> set ''it''"
    and g: "test_filter_logic ''Got it.'' True
       = filter_logic_with (drop_multi_word module_word_sets) ''Got it.'' True"
    by (simp_all add: d)
  from a b c d e f g show ?thesis by blast
qed

section \<open>Scenarios\<close>

text \<open>
  Claim C9 (literal scenarios). The six transcripts of the specification, with the
  configured word sets, get the actions SWALLOW, RESPOND, INTERRUPT, INTERRUPT, SWALLOW and
  SWALLOW.
\<close>

theorem literal_scenarios:
  "fst (test_filter_logic ''Yeah... okay... uh-huh'' True) = ''SWALLOW''
   \<and> fst (test_filter_logic ''Yeah'' False) = ''RESPOND''
   \<and> fst (test_filter_logic ''Stop'' True) = ''INTERRUPT''
   \<and> fst (test_filter_logic ''Yeah but wait a second'' True) = ''INTERRUPT''
   \<and> fst (test_filter_logic '''' True) = ''SWALLOW''
   \<and> fst (test_filter_logic ''... ... ...'' True) = ''SWALLOW''"
proof -
  have s1: "fst (test_filter_logic ''Yeah... okay... uh-huh'' True) = ''SWALLOW''"
    by code_simp
  have s2: "fst (test_filter_logic ''Yeah'' False) = ''RESPOND''"
    by code_simp
  have s3: "fst (test_filter_logic ''Stop'' True) = ''INTERRUPT''"
    by code_simp
  have s4: "fst (test_filter_logic ''Yeah but wait a second'' True) = ''INTERRUPT''"
    by code_simp
  have s5: "fst (test_filter_logic '''' True) = ''SWALLOW''"
    by code_simp
  have s6: "fst (test_filter_logic ''... ... ...'' True) = ''SWALLOW''"
    by code_simp
  from s1 s2 s3 s4 s5 s6 show ?thesis by blast
qed

section \<open>Sessions of calls\<close>

lemma run_calls_nth:
  "i < length cs \<Longrightarrow>
   run_calls cs ! i = test_filter_logic (call_transcript (cs ! i)) (call_speaking (cs ! i))"
  by (simp add: run_calls_def)

lemma speaking_action:
  "fst (test_filter_logic transcript True) = content_based_action transcript"
proof (cases "tokens transcript = []")
  case True
  then show ?thesis
    by (simp add: content_based_action_def test_filter_logic_unfold filter_decision_empty)
next
  case ne: False
  show ?thesis
  proof (cases "\<exists>tok\<in>set (tokens transcript). tok \<in> INTERRUPT_WORDS")
    case True
    then show ?thesis using ne
      by (simp add: content_based_action_def test_filter_logic_unfold filter_decision_interrupt)
  next
    case ni: False
    show ?thesis
    proof (cases "\<forall>tok\<in>set (tokens transcript). tok \<in> IGNORE_WORDS \<or> tok \<in> FILLER_WORDS")
      case True
      then show ?thesis using ne ni
        by (simp add: content_based_action_def test_filter_logic_unfold
            filter_decision_acceptable)
    next
      case False
      then have "\<exists>tok\<in>set (tokens transcript).
          tok \<notin> ignore_words module_word_sets \<and> tok \<notin> filler_words module_word_sets"
        by simp
      with ni have "fst (filter_decision module_word_sets (tokens transcript) True) = ''INTERRUPT''"
        by (simp add: filter_decision_mixed)
      with False ne ni show ?thesis
        by (simp add: content_based_action_def test_filter_logic_unfold)
    qed
  qed
qed

text \<open>
  Claim C4 (debounce law) does not hold of the filter: two calls with the agent speaking,
  100 ms apart, which is less than \<open>MICRO_DEBOUNCE_MS\<close>, both with the transcript Stop, both
  get INTERRUPT; the second is not turned into SWALLOW.
\<close>

theorem debounce_absent_counterexample:
  "(100::int) - 0 < MICRO_DEBOUNCE_MS
   \<and> map fst (run_calls
        [\<lparr>call_time_ms = 0, call_transcript = ''Stop'', call_speaking = True\<rparr>,
         \<lparr>call_time_ms = 100, call_transcript = ''Stop'', call_speaking = True\<rparr>])
       = [''INTERRUPT'', ''INTERRUPT'']
   \<and> fst (run_calls
        [\<lparr>call_time_ms = 0, call_transcript = ''Stop'', call_speaking = True\<rparr>,
         \<lparr>call_time_ms = 100, call_transcript = ''Stop'', call_speaking = True\<rparr>] ! 1)
       \<noteq> ''SWALLOW''"
proof -
  have "fst (test_filter_logic ''Stop'' True) = ''INTERRUPT''" by code_simp
  then show ?thesis by (simp add: run_calls_def MICRO_DEBOUNCE_MS_def)
qed

text \<open>
  Claim C4 as amended. For any two calls of a session, both with the agent speaking,
  whatever their times, each of the two gets its own content-based action: the filter
  applies no debounce and never consults \<open>MICRO_DEBOUNCE_MS\<close>.
\<close>

theorem no_debounce_content_action:
  assumes "i < j" and "j < length cs"
    and "call_speaking (cs ! i)" and "call_speaking (cs ! j)"
  shows "fst (run_calls cs ! i) = content_based_action (call_transcript (cs ! i))
         \<and> fst (run_calls cs ! j) = content_based_action (call_transcript (cs ! j))"
  using assms by (simp add: run_calls_nth speaking_action)

theorem no_debounce_content_action_witness:
  "(0::nat) < 1
   \<and> 1 < length [\<lparr>call_time_ms = 0, call_transcript = ''Yeah'', call_speaking = True\<rparr>,
                 \<lparr>call_time_ms = 100, call_transcript = ''Stop'', call_speaking = True\<rparr>]
   \<and> (100::int) - 0 < MICRO_DEBOUNCE_MS
   \<and> fst (run_calls [\<lparr>call_time_ms = 0, call_transcript = ''Yeah'', call_speaking = True\<rparr>,
                 \<lparr>call_time_ms = 100, call_transcript = ''Stop'', call_speaking = True\<rparr>] ! 0)
       = content_based_action ''Yeah''
   \<and> fst (run_calls [\<lparr>call_time_ms = 0, call_transcript = ''Yeah'', call_speaking = True\<rparr>,
                 \<lparr>call_time_ms = 100, call_transcript = ''Stop'', call_speaking = True\<rparr>] ! 1)
       = content_based_action ''Stop''
   \<and> content_based_action ''Yeah'' = ''SWALLOW''
   \<and> content_based_action ''Stop'' = ''INTERRUPT''"
proof -
  have a: "content_based_action ''Yeah'' = ''SWALLOW''" by code_simp
  have b: "content_based_action ''Stop'' = ''INTERRUPT''" by code_simp
  from a b
    no_debounce_content_action [of 0 1
      "[\<lparr>call_time_ms = 0, call_transcript = ''Yeah'', call_speaking = True\<rparr>,
        \<lparr>call_time_ms = 100, call_transcript = ''Stop'', call_speaking = True\<rparr>]"]
  show ?thesis by (simp add: MICRO_DEBOUNCE_MS_def)
qed





lemma call_filter_reads_globals:
  "fst (call_filter ((session_at 0 (\<lambda>xs. xs))\<lparr>interrupt_global := []\<rparr>) ''Stop'' True)
   \<noteq> fst (call_filter (session_at 0 (\<lambda>xs. xs)) ''Stop'' True)"
  by code_simp





end
